theory Spec2Isabelle
  imports Complex_Main "HOL-Library.AList" "HOL-Library.Multiset"
begin

section \<open>Data model of the segment processors\<close>

text \<open>
  The bus and the metro segment processor (\<^verbatim>\<open>Bus_Segment_Processor.py\<close>,
  \<^verbatim>\<open>Metro_Segment_Processor.py\<close>) share the functions modelled here word for word; they
  differ in log messages only. A row of a GeoDataFrame is a record of its columns. A text
  column read with \<^verbatim>\<open>str(row.get(k, ''))\<close> is a \<open>string\<close>, the empty string standing for
  a missing value, as the default of \<^verbatim>\<open>get\<close> makes it. Python floats are modelled as reals:
  NaN, infinities and binary rounding are outside the model.
\<close>

type_synonym point = "real \<times> real"

text \<open>A shapely LineString is its coordinate sequence; the empty list is the empty geometry.\<close>

type_synonym linestring = "point list"

record route =
  route_id :: string
  route_cn :: string
  city_cn :: string
  city_en :: string
  geometry :: "linestring option"

record stop =
  route_id :: string
  stop_id :: string
  name_cn :: string
  name_en :: string
  city_cn :: string
  city_en :: string
  sequence :: int
  geometry :: point

record segment =
  s_stop_cn :: string
  s_stop_en :: string
  s_stopid :: string
  e_stop_cn :: string
  e_stop_en :: string
  e_stopid :: string
  distance :: real
  city_cn :: string
  city_en :: string
  geometry :: linestring

text \<open>An aggregated segment is a copy of a segment dictionary with the key \<^verbatim>\<open>num\<close> added.\<close>

record aggregated_segment = segment +
  num :: nat

record unique_stop =
  stop_cn :: string
  stop_en :: string
  stop_id :: string
  num :: nat
  city_cn :: string
  city_en :: string
  geometry :: point

subsection \<open>The geometry libraries\<close>

text \<open>
  shapely and pyproj are not part of the repository: the calls the processors make are
  fields of an environment. A call that raises returns \<open>None\<close>.
  \<^item> \<open>line_project l p\<close> is \<^verbatim>\<open>l.project(p)\<close>;
  \<^item> \<open>substring l a b\<close> is \<^verbatim>\<open>shapely.ops.substring(l, a, b)\<close>;
  \<^item> \<open>line_length l\<close> is \<^verbatim>\<open>l.length\<close>;
  \<^item> \<open>mercator_length l\<close> is the length of \<open>l\<close> transformed from EPSG:4326 to EPSG:3857,
    \<^verbatim>\<open>transform(project, l).length\<close>, \<open>None\<close> when pyproj is missing or the transformation
    raises.
\<close>

record geo_env =
  line_project :: "linestring \<Rightarrow> point \<Rightarrow> real option"
  substring :: "linestring \<Rightarrow> real \<Rightarrow> real \<Rightarrow> linestring option"
  line_length :: "linestring \<Rightarrow> real option"
  mercator_length :: "linestring \<Rightarrow> real option"

subsection \<open>Python built-ins\<close>

text \<open>\<^verbatim>\<open>round(x, n)\<close>: to the nearest multiple of \<open>10\<^sup>-\<^sup>n\<close>, a tie to the even one.\<close>

definition round_half_even :: "real \<Rightarrow> int" where
  "round_half_even x =
     (let f = \<lfloor>x\<rfloor>; d = x - of_int f
      in if d < 1 / 2 then f else if 1 / 2 < d then f + 1 else if even f then f else f + 1)"

definition py_round :: "real \<Rightarrow> nat \<Rightarrow> real" where
  "py_round x ndigits = of_int (round_half_even (x * 10 ^ ndigits)) / 10 ^ ndigits"

text \<open>\<^verbatim>\<open>sep.join(xs)\<close>\<close>

fun join :: "string \<Rightarrow> string list \<Rightarrow> string" where
  "join sep [] = []"
| "join sep [x] = x"
| "join sep (x # y # ys) = x @ sep @ join sep (y # ys)"

text \<open>
  A Python \<^verbatim>\<open>set\<close> is kept as the list of its elements, each once, in the order they
  were first added. \<^verbatim>\<open>len(s)\<close> is the length of that list. The order in which \<^verbatim>\<open>list(s)\<close>
  enumerates the elements is not this order: the language leaves it unspecified, and in
  CPython it follows the hash values, which for strings change from one process to the
  next. It is a parameter \<open>set_iter\<close> of the functions that enumerate a set.
\<close>

definition set_add :: "'a \<Rightarrow> 'a list \<Rightarrow> 'a list" where
  "set_add x s = (if x \<in> set s then s else s @ [x])"

section \<open>Segment aggregation\<close>

text \<open>The value type of the \<^verbatim>\<open>defaultdict\<close> of \<^verbatim>\<open>aggregate_segments\<close> and its default.\<close>

record segment_group =
  distances :: "real list"
  first_segment :: "segment option"
  cities :: "string list"
  count :: nat

definition new_segment_group :: segment_group where
  "new_segment_group = \<lparr>distances = [], first_segment = None, segment_group.cities = [], count = 0\<rparr>"

type_synonym segment_key = "string \<times> string"

type_synonym segment_groups = "(segment_key \<times> segment_group) list"

text \<open>
  The body of the first loop of \<^verbatim>\<open>aggregate_segments\<close>. A dictionary keeps its keys in
  insertion order: it is an association list, a new key goes to the end.
\<close>

definition add_segment :: "segment_groups \<Rightarrow> segment \<Rightarrow> segment_groups" where
  "add_segment segment_groups seg =
     (let key = (s_stopid seg, e_stopid seg);
          grp = (case map_of segment_groups key of None \<Rightarrow> new_segment_group | Some g \<Rightarrow> g);
          grp = (if first_segment grp = None then grp\<lparr>first_segment := Some seg\<rparr> else grp);
          grp = grp\<lparr>distances := distances grp @ [distance seg]\<rparr>;
          grp = grp\<lparr>segment_group.cities := set_add (segment.city_cn seg) (segment_group.cities grp)\<rparr>;
          grp = grp\<lparr>count := count grp + 1\<rparr>
      in AList.update key grp segment_groups)"

fun group_segments :: "segment_groups \<Rightarrow> segment list \<Rightarrow> segment_groups" where
  "group_segments segment_groups [] = segment_groups"
| "group_segments segment_groups (seg # segments_list) =
     group_segments (add_segment segment_groups seg) segments_list"

text \<open>
  The body of the second loop. \<^verbatim>\<open>group['first_segment'].copy()\<close> raises on \<^verbatim>\<open>None\<close>:
  the result is \<open>None\<close> then.
\<close>

definition aggregate_group ::
  "(string list \<Rightarrow> string list) \<Rightarrow> segment_group \<Rightarrow> aggregated_segment option" where
  "aggregate_group set_iter grp =
     (case first_segment grp of
        None \<Rightarrow> None
      | Some seg \<Rightarrow>
          let avg_distance =
                (if distances grp \<noteq> []
                 then py_round (sum_list (distances grp) / real (length (distances grp))) 3
                 else 0)
          in Some (segment.extend
                     (seg\<lparr>distance := avg_distance,
                          segment.city_cn := join ''; '' (set_iter (segment_group.cities grp))\<rparr>)
                     \<lparr>aggregated_segment.num = count grp\<rparr>))"

fun generate_aggregated ::
  "(string list \<Rightarrow> string list) \<Rightarrow> segment_groups \<Rightarrow> aggregated_segment list
     \<Rightarrow> aggregated_segment list option" where
  "generate_aggregated set_iter [] aggregated_segments = Some aggregated_segments"
| "generate_aggregated set_iter ((key, grp) # rest) aggregated_segments =
     (case aggregate_group set_iter grp of
        None \<Rightarrow> None
      | Some seg \<Rightarrow> generate_aggregated set_iter rest (aggregated_segments @ [seg]))"

definition aggregate_segments ::
  "(string list \<Rightarrow> string list) \<Rightarrow> segment list \<Rightarrow> aggregated_segment list option" where
  "aggregate_segments set_iter segments_list =
     generate_aggregated set_iter (group_segments [] segments_list) []"

section \<open>Route segmentation\<close>

text \<open>
  \<^verbatim>\<open>get_route_stops_ordered\<close>: the rows of the route, sorted by the column \<^verbatim>\<open>sequence\<close> when
  the frame has one (\<open>has_sequence\<close>). \<^verbatim>\<open>sort_values\<close> is modelled by the stable sort; how
  pandas orders rows of equal sequence value plays no part in the properties below, which
  use only that the sorted frame holds the same rows.
\<close>

definition get_route_stops_ordered :: "bool \<Rightarrow> string \<Rightarrow> stop list \<Rightarrow> stop list" where
  "get_route_stops_ordered has_sequence rid stops_gdf =
     (let route_stops = filter (\<lambda>s. stop.route_id s = rid) stops_gdf
      in if length route_stops = 0 then route_stops
         else if has_sequence then sort_key sequence route_stops
         else route_stops)"

definition project_point_to_line :: "geo_env \<Rightarrow> point \<Rightarrow> linestring \<Rightarrow> real option" where
  "project_point_to_line env point line = line_project env line point"

definition extract_line_segment ::
  "geo_env \<Rightarrow> linestring \<Rightarrow> real \<Rightarrow> real \<Rightarrow> linestring option" where
  "extract_line_segment env line start_distance end_distance =
     (let (start_distance, end_distance) =
            (if start_distance > end_distance then (end_distance, start_distance)
             else (start_distance, end_distance))
      in case substring env line start_distance end_distance of
           None \<Rightarrow> None
         | Some seg \<Rightarrow>
             if seg = [] then None
             else (case line_length env seg of
                     None \<Rightarrow> None
                   | Some len \<Rightarrow> if len < 0.000001 then None else Some seg))"

definition calculate_segment_distance :: "geo_env \<Rightarrow> linestring \<Rightarrow> real" where
  "calculate_segment_distance env segment_line =
     (case mercator_length env segment_line of
        Some len \<Rightarrow> py_round (len / 1000) 3
      | None \<Rightarrow>
          (case line_length env segment_line of
             Some len \<Rightarrow> py_round (len * 111.32) 3
           | None \<Rightarrow> 0))"

record stop_projection =
  index :: nat
  stop_data :: stop
  projection_distance :: real

text \<open>The projection loop: a stop whose projection fails is logged and left out.\<close>

fun project_stops :: "geo_env \<Rightarrow> linestring \<Rightarrow> nat \<Rightarrow> stop list \<Rightarrow> stop_projection list" where
  "project_stops env route_geometry idx [] = []"
| "project_stops env route_geometry idx (stop_row # rest) =
     (case project_point_to_line env (stop.geometry stop_row) route_geometry of
        Some d \<Rightarrow>
          \<lparr>index = idx, stop_data = stop_row, projection_distance = d\<rparr>
            # project_stops env route_geometry (Suc idx) rest
      | None \<Rightarrow> project_stops env route_geometry (Suc idx) rest)"

text \<open>The body of the segment loop, for the entries \<open>i\<close> and \<open>i + 1\<close> of the sorted list.\<close>

definition make_segment ::
  "geo_env \<Rightarrow> route \<Rightarrow> linestring \<Rightarrow> stop_projection \<Rightarrow> stop_projection \<Rightarrow> segment" where
  "make_segment env route_row route_geometry start_stop_info end_stop_info =
     (let start_stop = stop_data start_stop_info;
          end_stop = stop_data end_stop_info;
          start_distance = projection_distance start_stop_info;
          end_distance = projection_distance end_stop_info;
          segment_line =
            (case extract_line_segment env route_geometry start_distance end_distance of
               Some l \<Rightarrow> l
             | None \<Rightarrow> [stop.geometry start_stop, stop.geometry end_stop]);
          distance = calculate_segment_distance env segment_line
      in \<lparr>s_stop_cn = name_cn start_stop, s_stop_en = name_en start_stop,
          s_stopid = stop.stop_id start_stop,
          e_stop_cn = name_cn end_stop, e_stop_en = name_en end_stop,
          e_stopid = stop.stop_id end_stop,
          distance = distance,
          city_cn = route.city_cn route_row, city_en = route.city_en route_row,
          geometry = segment_line\<rparr>)"

text \<open>\<^verbatim>\<open>for i in range(len(stop_projections) - 1)\<close>: one segment for each consecutive pair.\<close>

fun segments_between ::
  "geo_env \<Rightarrow> route \<Rightarrow> linestring \<Rightarrow> stop_projection list \<Rightarrow> segment list" where
  "segments_between env route_row route_geometry (a # b # rest) =
     make_segment env route_row route_geometry a b
       # segments_between env route_row route_geometry (b # rest)"
| "segments_between env route_row route_geometry [a] = []"
| "segments_between env route_row route_geometry [] = []"

definition create_segments_from_route ::
  "geo_env \<Rightarrow> bool \<Rightarrow> route \<Rightarrow> stop list \<Rightarrow> segment list" where
  "create_segments_from_route env has_sequence route_row stops_gdf =
     (let route_stops = get_route_stops_ordered has_sequence (route.route_id route_row) stops_gdf
      in if length route_stops < 2 then []
         else (case route.geometry route_row of
                 None \<Rightarrow> []
               | Some route_geometry \<Rightarrow>
                   if route_geometry = [] then []
                   else
                     let stop_projections = project_stops env route_geometry 0 route_stops;
                         stop_projections = sort_key projection_distance stop_projections
                     in segments_between env route_row route_geometry stop_projections))"

section \<open>Stop deduplication\<close>

record stop_group =
  route_ids :: "string list"
  first_stop :: "stop option"
  cities :: "string list"

definition new_stop_group :: stop_group where
  "new_stop_group = \<lparr>route_ids = [], first_stop = None, cities = []\<rparr>"

type_synonym stop_groups = "(string \<times> stop_group) list"

definition add_stop :: "stop_groups \<Rightarrow> stop \<Rightarrow> stop_groups" where
  "add_stop stop_groups stop_row =
     (let stop_id = stop.stop_id stop_row;
          route_id = stop.route_id stop_row;
          city_cn = stop.city_cn stop_row
      in if stop_id = [] then stop_groups
         else
           let grp = (case map_of stop_groups stop_id of None \<Rightarrow> new_stop_group | Some g \<Rightarrow> g);
               grp = (if first_stop grp = None then grp\<lparr>first_stop := Some stop_row\<rparr> else grp);
               grp = (if route_id \<noteq> []
                      then grp\<lparr>route_ids := set_add route_id (route_ids grp),
                               stop_group.cities := set_add city_cn (stop_group.cities grp)\<rparr>
                      else grp)
           in AList.update stop_id grp stop_groups)"

fun group_stops :: "stop_groups \<Rightarrow> stop list \<Rightarrow> stop_groups" where
  "group_stops stop_groups [] = stop_groups"
| "group_stops stop_groups (stop_row # stops_gdf) =
     group_stops (add_stop stop_groups stop_row) stops_gdf"

definition unique_stop_of ::
  "(string list \<Rightarrow> string list) \<Rightarrow> string \<Rightarrow> stop_group \<Rightarrow> unique_stop option" where
  "unique_stop_of set_iter sid grp =
     (case first_stop grp of
        None \<Rightarrow> None
      | Some stop \<Rightarrow>
          Some \<lparr>stop_cn = name_cn stop, stop_en = name_en stop, stop_id = sid,
                num = length (route_ids grp),
                city_cn = join ''; '' (set_iter (stop_group.cities grp)),
                city_en = stop.city_en stop,
                geometry = stop.geometry stop\<rparr>)"

fun generate_unique ::
  "(string list \<Rightarrow> string list) \<Rightarrow> stop_groups \<Rightarrow> unique_stop list \<Rightarrow> unique_stop list option" where
  "generate_unique set_iter [] unique_stops = Some unique_stops"
| "generate_unique set_iter ((sid, grp) # rest) unique_stops =
     (case unique_stop_of set_iter sid grp of
        None \<Rightarrow> None
      | Some st \<Rightarrow> generate_unique set_iter rest (unique_stops @ [st]))"

definition create_unique_stops ::
  "(string list \<Rightarrow> string list) \<Rightarrow> stop list \<Rightarrow> unique_stop list option" where
  "create_unique_stops set_iter stops_gdf =
     generate_unique set_iter (group_stops [] stops_gdf) []"

section \<open>Notions used to state the properties\<close>

text \<open>The distinct elements of a list, in the order of their first occurrence.\<close>

definition first_seen :: "'a list \<Rightarrow> 'a list" where
  "first_seen xs = fold set_add xs []"

definition segment_key :: "'a segment_scheme \<Rightarrow> segment_key" where
  "segment_key seg = (s_stopid seg, e_stopid seg)"

text \<open>The input segments of a key, in input order.\<close>

definition members :: "segment_key \<Rightarrow> segment list \<Rightarrow> segment list" where
  "members k segs = filter (\<lambda>s. segment_key s = k) segs"

definition group_of :: "segment list \<Rightarrow> segment_group" where
  "group_of ms =
     \<lparr>distances = map distance ms,
      first_segment = (case ms of [] \<Rightarrow> None | m # _ \<Rightarrow> Some m),
      segment_group.cities = first_seen (map segment.city_cn ms),
      count = length ms\<rparr>"

definition bump :: "segment \<Rightarrow> segment_group \<Rightarrow> segment_group" where
  "bump s g =
     (let g = (if first_segment g = None then g\<lparr>first_segment := Some s\<rparr> else g);
          g = g\<lparr>distances := distances g @ [distance s]\<rparr>;
          g = g\<lparr>segment_group.cities := set_add (segment.city_cn s) (segment_group.cities g)\<rparr>
      in g\<lparr>count := count g + 1\<rparr>)"

definition aggregated_of ::
  "(string list \<Rightarrow> string list) \<Rightarrow> segment list \<Rightarrow> aggregated_segment" where
  "aggregated_of set_iter ms =
     segment.extend
       ((hd ms)\<lparr>distance := py_round (sum_list (map distance ms) / real (length ms)) 3,
                segment.city_cn := join ''; '' (set_iter (first_seen (map segment.city_cn ms)))\<rparr>)
       \<lparr>aggregated_segment.num = length ms\<rparr>"

text \<open>The input rows of a stop id, in input order.\<close>

definition stop_members :: "string \<Rightarrow> stop list \<Rightarrow> stop list" where
  "stop_members k stops = filter (\<lambda>s. stop.stop_id s = k) stops"

text \<open>The rows that name a route: only they add a route id and a city to a group.\<close>

definition routed :: "stop list \<Rightarrow> stop list" where
  "routed ms = filter (\<lambda>s. stop.route_id s \<noteq> []) ms"

definition stop_group_of :: "stop list \<Rightarrow> stop_group" where
  "stop_group_of ms =
     \<lparr>route_ids = first_seen (map stop.route_id (routed ms)),
      first_stop = (case ms of [] \<Rightarrow> None | m # _ \<Rightarrow> Some m),
      stop_group.cities = first_seen (map stop.city_cn (routed ms))\<rparr>"

definition bump_stop :: "stop \<Rightarrow> stop_group \<Rightarrow> stop_group" where
  "bump_stop s g =
     (let g = (if first_stop g = None then g\<lparr>first_stop := Some s\<rparr> else g)
      in if stop.route_id s \<noteq> []
         then g\<lparr>route_ids := set_add (stop.route_id s) (route_ids g),
                stop_group.cities := set_add (stop.city_cn s) (stop_group.cities g)\<rparr>
         else g)"

definition unique_of :: "(string list \<Rightarrow> string list) \<Rightarrow> string \<Rightarrow> stop list \<Rightarrow> unique_stop" where
  "unique_of set_iter k ms =
     \<lparr>stop_cn = name_cn (hd ms), stop_en = name_en (hd ms), stop_id = k,
      num = length (first_seen (map stop.route_id (routed ms))),
      city_cn = join ''; '' (set_iter (first_seen (map stop.city_cn (routed ms)))),
      city_en = stop.city_en (hd ms),
      geometry = stop.geometry (hd ms)\<rparr>"

text \<open>The stop ids that get a group: the non-empty ones, in the order they first occur.\<close>

definition stop_keys :: "stop list \<Rightarrow> string list" where
  "stop_keys stops = first_seen (filter (\<lambda>i. i \<noteq> []) (map stop.stop_id stops))"


subsection \<open>Notions for the route segmentation\<close>

text \<open>The rows of the stop frame that belong to a route.\<close>

definition route_stops_of :: "route \<Rightarrow> stop list \<Rightarrow> stop list" where
  "route_stops_of route_row stops_gdf =
     filter (\<lambda>s. stop.route_id s = route.route_id route_row) stops_gdf"

text \<open>
  The list \<^verbatim>\<open>stop_projections\<close> of \<^verbatim>\<open>create_segments_from_route\<close> after it is sorted, for
  the route geometry \<open>g\<close>.
\<close>

definition sorted_projections ::
  "geo_env \<Rightarrow> bool \<Rightarrow> route \<Rightarrow> stop list \<Rightarrow> linestring \<Rightarrow> stop_projection list" where
  "sorted_projections env has_sequence route_row stops_gdf g =
     sort_key projection_distance
       (project_stops env g 0
          (get_route_stops_ordered has_sequence (route.route_id route_row) stops_gdf))"

text \<open>A stop row without its \<^verbatim>\<open>sequence\<close> value.\<close>

definition forget_sequence :: "stop \<Rightarrow> stop" where
  "forget_sequence s = s\<lparr>sequence := 0\<rparr>"

definition projection_view :: "stop_projection \<Rightarrow> stop \<times> real" where
  "projection_view p = (forget_sequence (stop_data p), projection_distance p)"

text \<open>The stops that project, each with its position, for a list of rows.\<close>

definition projected :: "geo_env \<Rightarrow> linestring \<Rightarrow> stop list \<Rightarrow> (stop \<times> real) list" where
  "projected env g xs =
     List.map_filter
       (\<lambda>s. map_option (\<lambda>d. (s, d)) (project_point_to_line env (stop.geometry s) g)) xs"

subsection \<open>Example data\<close>

definition example_segment :: "string \<Rightarrow> string \<Rightarrow> real \<Rightarrow> string \<Rightarrow> segment" where
  "example_segment a b d c =
     \<lparr>s_stop_cn = a, s_stop_en = a, s_stopid = a,
      e_stop_cn = b, e_stop_en = b, e_stopid = b,
      distance = d, city_cn = c, city_en = c, geometry = []\<rparr>"

definition example_stop :: "string \<Rightarrow> string \<Rightarrow> string \<Rightarrow> int \<Rightarrow> point \<Rightarrow> stop" where
  "example_stop r i c n p =
     \<lparr>route_id = r, stop_id = i, name_cn = i, name_en = i,
      city_cn = c, city_en = c, sequence = n, geometry = p\<rparr>"

text \<open>
  An environment for a route along the x axis: a point projects to its x coordinate, a
  slice is the line between its two positions, a single point when they coincide. The
  length is the sum of the coordinate differences, the Euclidean length for the
  axis-parallel lines of the examples; the planar length of one unit is 1000 metres.
\<close>

fun axis_length :: "linestring \<Rightarrow> real" where
  "axis_length (p # q # rest) =
     \<bar>fst q - fst p\<bar> + \<bar>snd q - snd p\<bar> + axis_length (q # rest)"
| "axis_length [p] = 0"
| "axis_length [] = 0"

definition example_env :: geo_env where
  "example_env =
     \<lparr>line_project = (\<lambda>l p. Some (fst p)),
      substring = (\<lambda>l a b. Some (if a = b then [(a, 0)] else [(a, 0), (b, 0)])),
      line_length = (\<lambda>l. Some (axis_length l)),
      mercator_length = (\<lambda>l. Some (1000 * axis_length l))\<rparr>"

definition example_route :: route where
  "example_route =
     \<lparr>route.route_id = ''r1'', route_cn = ''R'', city_cn = ''c'', city_en = ''c'',
      geometry = Some [(0, 0), (12, 0)]\<rparr>"

section \<open>Properties of the aggregation\<close>

lemma first_seen_Nil [simp]: "first_seen [] = []"
  by (simp add: first_seen_def)

lemma first_seen_snoc: "first_seen (xs @ [x]) = set_add x (first_seen xs)"
  by (simp add: first_seen_def)

lemma set_first_seen [simp]: "set (first_seen xs) = set xs"
  by (induction xs rule: rev_induct) (auto simp: first_seen_snoc set_add_def)

lemma distinct_first_seen [simp]: "distinct (first_seen xs)"
  by (induction xs rule: rev_induct) (auto simp: first_seen_snoc set_add_def)

lemma group_segments_snoc:
  "group_segments gs (segs @ [s]) = add_segment (group_segments gs segs) s"
  by (induction segs arbitrary: gs) auto

lemma map_of_keyed: "map_of (map (\<lambda>k. (k, f k)) ks) k = (if k \<in> set ks then Some (f k) else None)"
  by (induction ks) auto

lemma update_keyed:
  "distinct ks \<Longrightarrow> AList.update k v (map (\<lambda>k. (k, f k)) ks) =
     (if k \<in> set ks then map (\<lambda>k'. (k', if k' = k then v else f k')) ks
      else map (\<lambda>k. (k, f k)) ks @ [(k, v)])"
  by (induction ks) auto

lemma add_segment_bump:
  "add_segment gs s = AList.update (segment_key s)
     (bump s (case map_of gs (segment_key s) of None \<Rightarrow> new_segment_group | Some g \<Rightarrow> g)) gs"
  by (simp add: add_segment_def bump_def segment_key_def Let_def)

lemma group_of_snoc: "group_of (ms @ [s]) = bump s (group_of ms)"
proof -
  have c: "first_seen (map segment.city_cn (ms @ [s])) =
      set_add (segment.city_cn s) (first_seen (map segment.city_cn ms))"
    by (simp add: first_seen_snoc)
  have f: "(case ms @ [s] of [] \<Rightarrow> None | m # _ \<Rightarrow> Some m) =
      (case ms of [] \<Rightarrow> Some s | m # _ \<Rightarrow> Some m)"
    by (cases ms) simp_all
  show ?thesis
    unfolding group_of_def c f bump_def by (cases ms) (simp_all add: Let_def)
qed

lemma group_of_Nil: "group_of [] = new_segment_group"
  by (simp add: group_of_def new_segment_group_def)

lemma group_segments_char:
  "group_segments [] segs =
     map (\<lambda>k. (k, group_of (members k segs))) (first_seen (map segment_key segs))"
proof (induction segs rule: rev_induct)
  case Nil
  show ?case by simp
next
  case (snoc s segs)
  let ?k = "segment_key s"
  let ?ks = "first_seen (map segment_key segs)"
  have m1: "members ?k (segs @ [s]) = members ?k segs @ [s]"
    by (simp add: members_def)
  have m2: "k' \<noteq> ?k \<Longrightarrow> members k' (segs @ [s]) = members k' segs" for k'
    by (auto simp: members_def)
  have m3: "?k \<notin> set ?ks \<Longrightarrow> members ?k segs = []"
    unfolding members_def filter_empty_conv set_first_seen by (metis image_eqI set_map)
  have ks: "first_seen (map segment_key (segs @ [s])) = set_add ?k ?ks"
    by (simp add: first_seen_snoc)
  show ?case
  proof (cases "?k \<in> set ?ks")
    case True
    have "group_segments [] (segs @ [s]) =
        map (\<lambda>k'. (k', if k' = ?k then bump s (group_of (members ?k segs))
                          else group_of (members k' segs))) ?ks"
      unfolding group_segments_snoc snoc.IH add_segment_bump
      using True by (simp add: map_of_keyed update_keyed)
    also have "\<dots> = map (\<lambda>k'. (k', group_of (members k' (segs @ [s])))) ?ks"
      by (rule map_cong) (auto simp: m1 m2 group_of_snoc)
    finally show ?thesis
      unfolding ks using True by (simp add: set_add_def)
  next
    case False
    have "group_segments [] (segs @ [s]) =
        map (\<lambda>k'. (k', group_of (members k' segs))) ?ks @ [(?k, bump s (group_of []))]"
      unfolding group_segments_snoc snoc.IH add_segment_bump
      using False by (simp add: map_of_keyed update_keyed group_of_Nil)
    also have "map (\<lambda>k'. (k', group_of (members k' segs))) ?ks =
        map (\<lambda>k'. (k', group_of (members k' (segs @ [s])))) ?ks"
    proof (rule map_cong [OF refl])
      fix k' assume "k' \<in> set ?ks"
      with False have "k' \<noteq> ?k" by blast
      then show "(k', group_of (members k' segs)) = (k', group_of (members k' (segs @ [s])))"
        by (simp add: m2)
    qed
    also have "bump s (group_of []) = group_of (members ?k (segs @ [s]))"
      using m3 [OF False] by (simp add: m1 group_of_snoc [symmetric])
    finally show ?thesis
      unfolding ks using False by (simp add: set_add_def)
  qed
qed

lemma sum_list_indicator:
  "distinct ks \<Longrightarrow> (\<Sum>k\<leftarrow>ks. if a = k then 1 else 0 :: nat) = (if a \<in> set ks then 1 else 0)"
  by (induction ks) auto

lemma sum_length_filter_keys:
  "distinct ks \<Longrightarrow> f ` set xs \<subseteq> set ks \<Longrightarrow>
     (\<Sum>k\<leftarrow>ks. length (filter (\<lambda>x. f x = k) xs)) = length xs"
proof (induction xs)
  case Nil
  then show ?case by simp
next
  case (Cons x xs)
  have "(\<Sum>k\<leftarrow>ks. length (filter (\<lambda>y. f y = k) (x # xs))) =
      (\<Sum>k\<leftarrow>ks. (if f x = k then 1 else 0) + length (filter (\<lambda>y. f y = k) xs))"
    by (rule arg_cong [where f = sum_list], rule map_cong) auto
  also have "\<dots> = (\<Sum>k\<leftarrow>ks. if f x = k then 1 else 0) + (\<Sum>k\<leftarrow>ks. length (filter (\<lambda>y. f y = k) xs))"
    by (simp add: sum_list_addf)
  also have "\<dots> = 1 + length xs"
    using Cons by (simp add: sum_list_indicator)
  finally show ?case by simp
qed

lemma aggregate_group_of:
  "ms \<noteq> [] \<Longrightarrow> aggregate_group set_iter (group_of ms) = Some (aggregated_of set_iter ms)"
  by (cases ms) (simp_all add: aggregate_group_def group_of_def aggregated_of_def)

lemma generate_aggregated_map:
  "(\<And>k g. (k, g) \<in> set gs \<Longrightarrow> aggregate_group set_iter g = Some (h k)) \<Longrightarrow>
   generate_aggregated set_iter gs acc = Some (acc @ map (\<lambda>(k, g). h k) gs)"
proof (induction gs arbitrary: acc)
  case Nil
  then show ?case by simp
next
  case (Cons p gs)
  obtain k g where p: "p = (k, g)" by (cases p)
  have "aggregate_group set_iter g = Some (h k)"
    using Cons.prems [of k g] by (simp add: p)
  moreover have "generate_aggregated set_iter gs (acc @ [h k]) =
      Some ((acc @ [h k]) @ map (\<lambda>(k, g). h k) gs)"
    by (rule Cons.IH) (use Cons.prems in auto)
  ultimately show ?case by (simp add: p)
qed

lemma members_nonempty: "k \<in> segment_key ` set segs \<Longrightarrow> members k segs \<noteq> []"
  by (auto simp: members_def filter_empty_conv)

lemma aggregate_segments_char:
  "aggregate_segments set_iter segs =
     Some (map (\<lambda>k. aggregated_of set_iter (members k segs)) (first_seen (map segment_key segs)))"
proof -
  have "generate_aggregated set_iter (group_segments [] segs) [] =
      Some ([] @ map (\<lambda>(k, g). aggregated_of set_iter (members k segs)) (group_segments [] segs))"
    by (rule generate_aggregated_map)
      (auto simp: group_segments_char intro!: aggregate_group_of members_nonempty)
  then show ?thesis
    by (simp add: aggregate_segments_def group_segments_char comp_def)
qed

text \<open>
  C2 (aggregation count conservation). \<^verbatim>\<open>aggregate_segments\<close> returns a list for every
  input list of segment records, and the usage counts \<^verbatim>\<open>num\<close> of the records it returns
  add up to the number of input records.
\<close>

theorem aggregate_segments_count_conservation:
  "\<exists>out. aggregate_segments set_iter segments_list = Some out \<and>
     sum_list (map aggregated_segment.num out) = length segments_list"
  by (simp add: aggregate_segments_char comp_def aggregated_of_def segment.defs members_def
        sum_length_filter_keys)

lemma segment_key_aggregated_of:
  "ms \<noteq> [] \<Longrightarrow> segment_key (aggregated_of set_iter ms) = segment_key (hd ms)"
  by (simp add: segment_key_def aggregated_of_def segment.defs)

lemma hd_members: "members k segs \<noteq> [] \<Longrightarrow> segment_key (hd (members k segs)) = k"
proof -
  assume "members k segs \<noteq> []"
  then have "hd (members k segs) \<in> set (members k segs)" by (rule hd_in_set)
  then show ?thesis by (simp add: members_def)
qed

lemma key_aggregated_members:
  "k \<in> segment_key ` set segs \<Longrightarrow> segment_key (aggregated_of set_iter (members k segs)) = k"
  by (simp add: segment_key_aggregated_of hd_members members_nonempty)

text \<open>Evaluation of the model on explicit inputs.\<close>

lemmas agg_eval = aggregate_segments_def add_segment_def aggregate_group_def new_segment_group_def
  set_add_def py_round_def round_half_even_def Let_def segment.defs segment_key_def members_def
  example_segment_def

lemmas stop_eval = create_unique_stops_def add_stop_def unique_stop_of_def new_stop_group_def
  set_add_def Let_def stop_members_def routed_def example_stop_def



text \<open>
  C6 (directional key). \<^verbatim>\<open>aggregate_segments\<close> groups by the ordered pair (start stop
  id, end stop id) as given: the output has one record for each distinct ordered pair, in
  the order the pairs first occur, counting the input segments with exactly that pair. For
  one segment from \<open>a\<close> to \<open>b\<close> and one from \<open>b\<close> to \<open>a\<close>, with \<open>a\<close> and \<open>b\<close> different,
  the output is two records of usage count 1, not one merged record.
\<close>

theorem aggregate_segments_directional:
  "(\<exists>out. aggregate_segments set_iter segments_list = Some out \<and>
      map (\<lambda>r. (segment_key r, aggregated_segment.num r)) out =
        map (\<lambda>k. (k, length (members k segments_list)))
          (first_seen (map segment_key segments_list))) \<and>
   (a \<noteq> b \<longrightarrow> segment_key s1 = (a, b) \<longrightarrow> segment_key s2 = (b, a) \<longrightarrow>
      (\<exists>r1 r2. aggregate_segments set_iter [s1, s2] = Some [r1, r2] \<and>
         segment_key r1 = (a, b) \<and> aggregated_segment.num r1 = 1 \<and>
         segment_key r2 = (b, a) \<and> aggregated_segment.num r2 = 1))"
proof -
  have g: "\<exists>out. aggregate_segments set_iter segs = Some out \<and>
      map (\<lambda>r. (segment_key r, aggregated_segment.num r)) out =
        map (\<lambda>k. (k, length (members k segs))) (first_seen (map segment_key segs))" for segs
  proof -
    let ?ks = "first_seen (map segment_key segs)"
    have "map (\<lambda>r. (segment_key r, aggregated_segment.num r))
        (map (\<lambda>k. aggregated_of set_iter (members k segs)) ?ks) =
        map (\<lambda>k. (k, length (members k segs))) ?ks"
      unfolding map_map comp_def
    proof (rule map_cong [OF refl])
      fix k assume "k \<in> set ?ks"
      then have k: "k \<in> segment_key ` set segs" by simp
      have "aggregated_segment.num (aggregated_of set_iter (members k segs)) = length (members k segs)"
        by (simp add: aggregated_of_def segment.defs)
      with key_aggregated_members [OF k, of set_iter]
      show "(segment_key (aggregated_of set_iter (members k segs)),
          aggregated_segment.num (aggregated_of set_iter (members k segs))) =
          (k, length (members k segs))"
        by simp
    qed
    then show ?thesis by (simp add: aggregate_segments_char)
  qed
  have i: "\<exists>r1 r2. aggregate_segments set_iter [s1, s2] = Some [r1, r2] \<and>
         segment_key r1 = (a, b) \<and> aggregated_segment.num r1 = 1 \<and>
         segment_key r2 = (b, a) \<and> aggregated_segment.num r2 = 1"
    if "a \<noteq> b" "segment_key s1 = (a, b)" "segment_key s2 = (b, a)"
  proof -
    from g [of "[s1, s2]"] obtain out where o: "aggregate_segments set_iter [s1, s2] = Some out"
      and m: "map (\<lambda>r. (segment_key r, aggregated_segment.num r)) out =
        map (\<lambda>k. (k, length (members k [s1, s2]))) (first_seen (map segment_key [s1, s2]))"
      by blast
    have "first_seen (map segment_key [s1, s2]) = [(a, b), (b, a)]"
      using that by (simp add: first_seen_def set_add_def)
    with m that have "map (\<lambda>r. (segment_key r, aggregated_segment.num r)) out =
        [((a, b), 1), ((b, a), 1)]"
      by (simp add: members_def)
    then obtain r1 r2 where "out = [r1, r2]" "segment_key r1 = (a, b)"
      "aggregated_segment.num r1 = 1" "segment_key r2 = (b, a)" "aggregated_segment.num r2 = 1"
      by (auto simp: map_eq_Cons_conv)
    with o show ?thesis by blast
  qed
  from g [of segments_list] i show ?thesis by blast
qed

theorem aggregate_segments_directional_witness:
  "''A'' \<noteq> ''B'' \<and>
   (\<exists>r1 r2. aggregate_segments id
        [example_segment ''A'' ''B'' 2 ''c'', example_segment ''B'' ''A'' 2 ''c''] = Some [r1, r2] \<and>
      segment_key r1 = (''A'', ''B'') \<and> aggregated_segment.num r1 = 1 \<and>
      segment_key r2 = (''B'', ''A'') \<and> aggregated_segment.num r2 = 1)"
  using aggregate_segments_directional [of id "[]" "''A''" "''B''"
      "example_segment ''A'' ''B'' 2 ''c''" "example_segment ''B'' ''A'' 2 ''c''"]
  by (simp add: segment_key_def example_segment_def)

section \<open>Properties of the stop deduplication\<close>

lemma group_stops_snoc:
  "group_stops gs (stops @ [s]) = add_stop (group_stops gs stops) s"
  by (induction stops arbitrary: gs) auto

lemma add_stop_bump:
  "add_stop gs s =
     (if stop.stop_id s = [] then gs
      else AList.update (stop.stop_id s)
        (bump_stop s (case map_of gs (stop.stop_id s) of None \<Rightarrow> new_stop_group | Some g \<Rightarrow> g)) gs)"
  by (simp add: add_stop_def bump_stop_def Let_def)

lemma stop_group_of_snoc: "stop_group_of (ms @ [s]) = bump_stop s (stop_group_of ms)"
proof -
  have f: "(case ms @ [s] of [] \<Rightarrow> None | m # _ \<Rightarrow> Some m) =
      (case ms of [] \<Rightarrow> Some s | m # _ \<Rightarrow> Some m)"
    by (cases ms) simp_all
  have r: "routed (ms @ [s]) = (if stop.route_id s \<noteq> [] then routed ms @ [s] else routed ms)"
    by (simp add: routed_def)
  have c: "first_seen (map g (xs @ [s])) = set_add (g s) (first_seen (map g xs))"
    for g :: "stop \<Rightarrow> string" and xs
    by (simp add: first_seen_snoc)
  show ?thesis
    unfolding stop_group_of_def f bump_stop_def r
    by (cases ms; cases "stop.route_id s \<noteq> []") (simp_all add: Let_def c del: map_append)
qed

lemma stop_group_of_Nil: "stop_group_of [] = new_stop_group"
  by (simp add: stop_group_of_def new_stop_group_def routed_def)

lemma group_stops_char:
  "group_stops [] stops = map (\<lambda>k. (k, stop_group_of (stop_members k stops))) (stop_keys stops)"
proof (induction stops rule: rev_induct)
  case Nil
  show ?case by (simp add: stop_keys_def)
next
  case (snoc s stops)
  let ?k = "stop.stop_id s"
  let ?ks = "stop_keys stops"
  have m1: "stop_members ?k (stops @ [s]) = stop_members ?k stops @ [s]"
    by (simp add: stop_members_def)
  have m2: "k' \<noteq> ?k \<Longrightarrow> stop_members k' (stops @ [s]) = stop_members k' stops" for k'
    by (auto simp: stop_members_def)
  have m3: "?k \<notin> set ?ks \<Longrightarrow> ?k \<noteq> [] \<Longrightarrow> stop_members ?k stops = []"
  proof -
    assume a: "?k \<notin> set ?ks" and b: "?k \<noteq> []"
    have "stop.stop_id x \<noteq> ?k" if "x \<in> set stops" for x
    proof
      assume e: "stop.stop_id x = ?k"
      from that have "stop.stop_id x \<in> set (map stop.stop_id stops)" by simp
      with e b have "?k \<in> set ?ks" by (simp add: stop_keys_def)
      with a show False by contradiction
    qed
    then show ?thesis by (simp add: stop_members_def filter_empty_conv)
  qed
  have ks: "stop_keys (stops @ [s]) = (if ?k = [] then ?ks else set_add ?k ?ks)"
    by (simp add: stop_keys_def first_seen_snoc)
  have d: "distinct ?ks" by (simp add: stop_keys_def)
  have ne: "[] \<notin> set ?ks" by (simp add: stop_keys_def)
  consider (empty) "?k = []" | (old) "?k \<noteq> []" "?k \<in> set ?ks" | (new) "?k \<noteq> []" "?k \<notin> set ?ks"
    by blast
  then show ?case
  proof cases
    case empty
    have "group_stops [] (stops @ [s]) = map (\<lambda>k'. (k', stop_group_of (stop_members k' stops))) ?ks"
      unfolding group_stops_snoc snoc.IH add_stop_bump using empty by simp
    also have "\<dots> = map (\<lambda>k'. (k', stop_group_of (stop_members k' (stops @ [s])))) ?ks"
    proof (rule map_cong [OF refl])
      fix k' assume "k' \<in> set ?ks"
      with ne empty have "k' \<noteq> ?k" by metis
      then show "(k', stop_group_of (stop_members k' stops)) =
          (k', stop_group_of (stop_members k' (stops @ [s])))"
        by (simp add: m2)
    qed
    finally show ?thesis unfolding ks using empty by simp
  next
    case old
    have "group_stops [] (stops @ [s]) =
        map (\<lambda>k'. (k', if k' = ?k then bump_stop s (stop_group_of (stop_members ?k stops))
                          else stop_group_of (stop_members k' stops))) ?ks"
      unfolding group_stops_snoc snoc.IH add_stop_bump
      using old d by (simp add: map_of_keyed update_keyed)
    also have "\<dots> = map (\<lambda>k'. (k', stop_group_of (stop_members k' (stops @ [s])))) ?ks"
      by (rule map_cong) (auto simp: m1 m2 stop_group_of_snoc)
    finally show ?thesis
      unfolding ks using old by (simp add: set_add_def)
  next
    case new
    have "group_stops [] (stops @ [s]) =
        map (\<lambda>k'. (k', stop_group_of (stop_members k' stops))) ?ks
          @ [(?k, bump_stop s (stop_group_of []))]"
      unfolding group_stops_snoc snoc.IH add_stop_bump
      using new d by (simp add: map_of_keyed update_keyed stop_group_of_Nil)
    also have "map (\<lambda>k'. (k', stop_group_of (stop_members k' stops))) ?ks =
        map (\<lambda>k'. (k', stop_group_of (stop_members k' (stops @ [s])))) ?ks"
    proof (rule map_cong [OF refl])
      fix k' assume "k' \<in> set ?ks"
      with new have "k' \<noteq> ?k" by blast
      then show "(k', stop_group_of (stop_members k' stops)) =
          (k', stop_group_of (stop_members k' (stops @ [s])))"
        by (simp add: m2)
    qed
    also have "bump_stop s (stop_group_of []) = stop_group_of (stop_members ?k (stops @ [s]))"
      using m3 [OF new(2) new(1)] by (simp add: m1 stop_group_of_snoc [symmetric])
    finally show ?thesis
      unfolding ks using new by (simp add: set_add_def)
  qed
qed

lemma unique_stop_of_group:
  "ms \<noteq> [] \<Longrightarrow> unique_stop_of set_iter k (stop_group_of ms) = Some (unique_of set_iter k ms)"
  by (cases ms) (simp_all add: unique_stop_of_def stop_group_of_def unique_of_def)

lemma generate_unique_map:
  "(\<And>k g. (k, g) \<in> set gs \<Longrightarrow> unique_stop_of set_iter k g = Some (h k)) \<Longrightarrow>
   generate_unique set_iter gs acc = Some (acc @ map (\<lambda>(k, g). h k) gs)"
proof (induction gs arbitrary: acc)
  case Nil
  then show ?case by simp
next
  case (Cons p gs)
  obtain k g where p: "p = (k, g)" by (cases p)
  have "unique_stop_of set_iter k g = Some (h k)"
    using Cons.prems [of k g] by (simp add: p)
  moreover have "generate_unique set_iter gs (acc @ [h k]) =
      Some ((acc @ [h k]) @ map (\<lambda>(k, g). h k) gs)"
    by (rule Cons.IH) (use Cons.prems in auto)
  ultimately show ?case by (simp add: p)
qed

lemma stop_members_nonempty: "k \<in> set (stop_keys stops) \<Longrightarrow> stop_members k stops \<noteq> []"
  by (auto simp: stop_members_def stop_keys_def filter_empty_conv)

lemma create_unique_stops_char:
  "create_unique_stops set_iter stops =
     Some (map (\<lambda>k. unique_of set_iter k (stop_members k stops)) (stop_keys stops))"
proof -
  have "generate_unique set_iter (group_stops [] stops) [] =
      Some ([] @ map (\<lambda>(k, g). unique_of set_iter k (stop_members k stops)) (group_stops [] stops))"
    by (rule generate_unique_map)
      (auto simp: group_stops_char intro!: unique_stop_of_group stop_members_nonempty)
  then show ?thesis
    by (simp add: create_unique_stops_def group_stops_char comp_def)
qed



lemma set_iter_tags:
  assumes "\<And>s. mset (set_iter s) = mset s"
  shows "distinct (set_iter (first_seen xs)) \<and> set (set_iter (first_seen xs)) = set xs"
proof -
  have m: "mset (set_iter (first_seen xs)) = mset (first_seen xs)" by (rule assms)
  have "distinct (set_iter (first_seen xs)) = distinct (first_seen xs)"
    by (rule mset_eq_imp_distinct_iff [OF m])
  moreover have "set (set_iter (first_seen xs)) = set (first_seen xs)"
    by (rule mset_eq_setD [OF m])
  ultimately show ?thesis by simp
qed

text \<open>
  C4 (combined city tag), as stated: the tags are joined in the order of their first
  occurrence. The code collects the tags in a \<^verbatim>\<open>set\<close> and joins \<^verbatim>\<open>list(group['cities'])\<close>,
  so the order is the iteration order of the set. With an iteration that lists the
  elements in another order, here in reverse, tags met as B then A are joined as
  \<open>A; B\<close>, in both functions.
\<close>

theorem city_tag_encounter_order_counterexample:
  "map_option (map segment.city_cn)
     (aggregate_segments rev
        [example_segment ''s1'' ''s2'' 1 ''B'', example_segment ''s1'' ''s2'' 1 ''A'']) =
     Some [''A; B''] \<and>
   join ''; '' (first_seen (map segment.city_cn
     [example_segment ''s1'' ''s2'' 1 ''B'', example_segment ''s1'' ''s2'' 1 ''A''])) = ''B; A'' \<and>
   map_option (map unique_stop.city_cn)
     (create_unique_stops rev
        [example_stop ''r1'' ''s1'' ''B'' 1 (0, 0), example_stop ''r2'' ''s1'' ''A'' 1 (0, 0)]) =
     Some [''A; B''] \<and>
   join ''; '' (first_seen (map stop.city_cn
     [example_stop ''r1'' ''s1'' ''B'' 1 (0, 0), example_stop ''r2'' ''s1'' ''A'' 1 (0, 0)])) = ''B; A''"
  by (simp add: agg_eval stop_eval first_seen_def)

text \<open>
  C4, amended. When the iteration of a set lists each of its elements once, the combined
  city tag of a record of \<^verbatim>\<open>aggregate_segments\<close> is the city tags of the members of its
  group, and the one of a record of \<^verbatim>\<open>create_unique_stops\<close> the city tags of the members of
  its group that have a non-empty route id, each tag once, joined with \<open>; \<close> in some
  order.
\<close>

theorem city_tag_distinct_tags:
  assumes "\<And>s. mset (set_iter s) = mset s"
  shows "(\<exists>out. aggregate_segments set_iter segments_list = Some out \<and>
      (\<forall>r\<in>set out. \<exists>tags.
         segment.city_cn r = join ''; '' tags \<and> distinct tags \<and>
         set tags = segment.city_cn ` set (members (segment_key r) segments_list))) \<and>
    (\<exists>out. create_unique_stops set_iter stops_gdf = Some out \<and>
      (\<forall>u\<in>set out. \<exists>tags.
         unique_stop.city_cn u = join ''; '' tags \<and> distinct tags \<and>
         set tags =
           stop.city_cn ` set (routed (stop_members (unique_stop.stop_id u) stops_gdf))))"
proof -
  let ?aout = "map (\<lambda>k. aggregated_of set_iter (members k segments_list))
      (first_seen (map segment_key segments_list))"
  have a: "\<exists>tags.
         segment.city_cn r = join ''; '' tags \<and> distinct tags \<and>
         set tags = segment.city_cn ` set (members (segment_key r) segments_list)"
    if "r \<in> set ?aout" for r
  proof -
    from that obtain k where k: "k \<in> segment_key ` set segments_list"
      and r: "r = aggregated_of set_iter (members k segments_list)" by auto
    have "segment_key r = k" unfolding r using k by (rule key_aggregated_members)
    moreover have "segment.city_cn r =
        join ''; '' (set_iter (first_seen (map segment.city_cn (members k segments_list))))"
      by (simp add: r aggregated_of_def segment.defs)
    ultimately show ?thesis
      using set_iter_tags [OF assms, of "map segment.city_cn (members k segments_list)"]
      by auto
  qed
  let ?sout = "map (\<lambda>k. unique_of set_iter k (stop_members k stops_gdf)) (stop_keys stops_gdf)"
  have b: "\<exists>tags.
         unique_stop.city_cn u = join ''; '' tags \<and> distinct tags \<and>
         set tags =
           stop.city_cn ` set (routed (stop_members (unique_stop.stop_id u) stops_gdf))"
    if "u \<in> set ?sout" for u
  proof -
    from that obtain k where u: "u = unique_of set_iter k (stop_members k stops_gdf)" by auto
    have "unique_stop.stop_id u = k" by (simp add: u unique_of_def)
    moreover have "unique_stop.city_cn u =
        join ''; '' (set_iter (first_seen (map stop.city_cn (routed (stop_members k stops_gdf)))))"
      by (simp add: u unique_of_def)
    ultimately show ?thesis
      using set_iter_tags [OF assms, of "map stop.city_cn (routed (stop_members k stops_gdf))"]
      by auto
  qed
  from a b show ?thesis
    unfolding aggregate_segments_char create_unique_stops_char by blast
qed

theorem city_tag_distinct_tags_witness:
  "(\<forall>s :: string list. mset (rev s) = mset s) \<and>
   (\<exists>r tags. aggregate_segments rev
        [example_segment ''s1'' ''s2'' 1 ''B'', example_segment ''s1'' ''s2'' 1 ''A'',
         example_segment ''s1'' ''s2'' 1 ''B''] = Some [r] \<and>
      segment.city_cn r = join ''; '' tags \<and> distinct tags \<and> set tags = {''A'', ''B''}) \<and>
   (\<exists>u tags. create_unique_stops rev
        [example_stop ''r1'' ''s1'' ''B'' 1 (0, 0), example_stop ''r2'' ''s1'' ''A'' 1 (0, 0),
         example_stop [] ''s1'' ''C'' 1 (0, 0)] = Some [u] \<and>
      unique_stop.city_cn u = join ''; '' tags \<and> distinct tags \<and> set tags = {''A'', ''B''})"
proof -
  let ?xs = "[example_segment ''s1'' ''s2'' 1 ''B'', example_segment ''s1'' ''s2'' 1 ''A'',
         example_segment ''s1'' ''s2'' 1 ''B'']"
  let ?ys = "[example_stop ''r1'' ''s1'' ''B'' 1 (0, 0), example_stop ''r2'' ''s1'' ''A'' 1 (0, 0),
         example_stop [] ''s1'' ''C'' 1 (0, 0)]"
  have h: "\<And>s :: string list. mset (rev s) = mset s" by simp
  note t = city_tag_distinct_tags [OF h, of ?xs ?ys]
  from t obtain aout where ao: "aggregate_segments rev ?xs = Some aout"
    and aq: "\<forall>r\<in>set aout. \<exists>tags.
         segment.city_cn r = join ''; '' tags \<and> distinct tags \<and>
         set tags = segment.city_cn ` set (members (segment_key r) ?xs)"
    by blast
  from t obtain sout where so: "create_unique_stops rev ?ys = Some sout"
    and sq: "\<forall>u\<in>set sout. \<exists>tags.
         unique_stop.city_cn u = join ''; '' tags \<and> distinct tags \<and>
         set tags = stop.city_cn ` set (routed (stop_members (unique_stop.stop_id u) ?ys))"
    by blast
  have "\<exists>r. aggregate_segments rev ?xs = Some [r] \<and> segment_key r = (''s1'', ''s2'')"
    by (simp add: agg_eval)
  with ao obtain r where r: "aout = [r]" "segment_key r = (''s1'', ''s2'')" by auto
  then have "r \<in> set aout" by simp
  from bspec [OF aq this] obtain tags where tags: "segment.city_cn r = join ''; '' tags"
    "distinct tags" "set tags = segment.city_cn ` set (members (segment_key r) ?xs)"
    by blast
  have "segment.city_cn ` set (members (''s1'', ''s2'') ?xs) = {''A'', ''B''}"
    by (auto simp: agg_eval)
  with tags r ao have 1: "\<exists>r tags. aggregate_segments rev ?xs = Some [r] \<and>
      segment.city_cn r = join ''; '' tags \<and> distinct tags \<and> set tags = {''A'', ''B''}"
    by auto
  have "\<exists>u. create_unique_stops rev ?ys = Some [u] \<and> unique_stop.stop_id u = ''s1''"
    by (simp add: stop_eval)
  with so obtain u where u: "sout = [u]" "unique_stop.stop_id u = ''s1''" by auto
  then have "u \<in> set sout" by simp
  from bspec [OF sq this] obtain tags' where tags': "unique_stop.city_cn u = join ''; '' tags'"
    "distinct tags'"
    "set tags' = stop.city_cn ` set (routed (stop_members (unique_stop.stop_id u) ?ys))"
    by blast
  have "stop.city_cn ` set (routed (stop_members ''s1'' ?ys)) = {''A'', ''B''}"
    by (auto simp: stop_eval)
  with tags' u so have 2: "\<exists>u tags. create_unique_stops rev ?ys = Some [u] \<and>
      unique_stop.city_cn u = join ''; '' tags \<and> distinct tags \<and> set tags = {''A'', ''B''}"
    by auto
  from h 1 2 show ?thesis by blast
qed

section \<open>The distance calculation\<close>

text \<open>
  \<^verbatim>\<open>calculate_segment_distance\<close> has a value on every path: the planar length in kilometres,
  else 111.32 times the native length, else 0, the first two rounded to three decimals.
  Rounding keeps a length non-negative, so the result is non-negative when the lengths the
  libraries return are.
\<close>

lemma round_half_even_nonneg: "0 \<le> x \<Longrightarrow> 0 \<le> round_half_even x"
proof -
  assume "0 \<le> x"
  then have "0 \<le> \<lfloor>x\<rfloor>" by simp
  then show ?thesis by (simp add: round_half_even_def Let_def)
qed

lemma py_round_nonneg: "0 \<le> x \<Longrightarrow> 0 \<le> py_round x n"
  by (simp add: py_round_def round_half_even_nonneg)

lemma calculate_segment_distance_nonneg:
  assumes "\<And>d. mercator_length env l = Some d \<Longrightarrow> 0 \<le> d"
    and "\<And>d. line_length env l = Some d \<Longrightarrow> 0 \<le> d"
  shows "0 \<le> calculate_segment_distance env l"
  using assms
  by (auto simp: calculate_segment_distance_def py_round_nonneg split: option.splits)

section \<open>Properties of the route segmentation\<close>

lemma length_segments_between:
  "length (segments_between env route_row g ps) = length ps - 1"
  by (induction env route_row g ps rule: segments_between.induct) simp_all

lemma nth_segments_between:
  "Suc i < length ps \<Longrightarrow>
     segments_between env route_row g ps ! i = make_segment env route_row g (ps ! i) (ps ! Suc i)"
proof (induction env route_row g ps arbitrary: i rule: segments_between.induct)
  case (1 env route_row g a b rest)
  then show ?case by (cases i) simp_all
qed simp_all

lemma project_stops_view:
  "map (\<lambda>p. (stop_data p, projection_distance p)) (project_stops env g idx xs) = projected env g xs"
  by (induction xs arbitrary: idx)
    (simp_all add: projected_def split: option.splits)

lemma length_projected_all:
  "\<forall>s\<in>set xs. project_point_to_line env (stop.geometry s) g \<noteq> None \<Longrightarrow>
     length (projected env g xs) = length xs"
  by (induction xs) (auto simp: projected_def split: option.splits)

lemma length_project_stops: "length (project_stops env g idx xs) = length (projected env g xs)"
  using arg_cong [OF project_stops_view, of length env g idx xs] by simp

lemma get_route_stops_ordered_eq:
  "get_route_stops_ordered has_sequence rid stops_gdf =
     (if has_sequence then sort_key sequence (filter (\<lambda>s. stop.route_id s = rid) stops_gdf)
      else filter (\<lambda>s. stop.route_id s = rid) stops_gdf)"
proof (cases "filter (\<lambda>s. stop.route_id s = rid) stops_gdf = []")
  case True
  then show ?thesis by (simp add: get_route_stops_ordered_def)
next
  case False
  then show ?thesis by (simp add: get_route_stops_ordered_def Let_def)
qed

lemma mset_get_route_stops_ordered:
  "mset (get_route_stops_ordered has_sequence rid stops_gdf) =
     mset (filter (\<lambda>s. stop.route_id s = rid) stops_gdf)"
  by (simp add: get_route_stops_ordered_eq)

lemma length_get_route_stops_ordered:
  "length (get_route_stops_ordered has_sequence rid stops_gdf) =
     length (filter (\<lambda>s. stop.route_id s = rid) stops_gdf)"
  by (simp add: get_route_stops_ordered_eq)

lemma set_get_route_stops_ordered:
  "set (get_route_stops_ordered has_sequence rid stops_gdf) =
     set (filter (\<lambda>s. stop.route_id s = rid) stops_gdf)"
  by (simp add: get_route_stops_ordered_eq)

lemma create_segments_valid:
  "route.geometry route_row = Some g \<Longrightarrow> g \<noteq> [] \<Longrightarrow>
   2 \<le> length (route_stops_of route_row stops_gdf) \<Longrightarrow>
   create_segments_from_route env has_sequence route_row stops_gdf =
     segments_between env route_row g (sorted_projections env has_sequence route_row stops_gdf g)"
  by (simp add: create_segments_from_route_def sorted_projections_def Let_def
      length_get_route_stops_ordered route_stops_of_def)

lemma create_segments_skip:
  "length (route_stops_of route_row stops_gdf) < 2 \<or> route.geometry route_row = None \<or>
   route.geometry route_row = Some [] \<Longrightarrow>
   create_segments_from_route env has_sequence route_row stops_gdf = []"
  by (auto simp: create_segments_from_route_def Let_def
      length_get_route_stops_ordered route_stops_of_def split: option.splits)

lemma length_sorted_projections_all:
  assumes "\<forall>s\<in>set (route_stops_of route_row stops_gdf).
      project_point_to_line env (stop.geometry s) g \<noteq> None"
  shows "length (sorted_projections env has_sequence route_row stops_gdf g) =
     length (route_stops_of route_row stops_gdf)"
proof -
  let ?rs = "get_route_stops_ordered has_sequence (route.route_id route_row) stops_gdf"
  have "\<forall>s\<in>set ?rs. project_point_to_line env (stop.geometry s) g \<noteq> None"
    using assms by (simp add: set_get_route_stops_ordered route_stops_of_def)
  then have "length (projected env g ?rs) = length ?rs" by (rule length_projected_all)
  then show ?thesis
    by (simp add: sorted_projections_def length_project_stops length_get_route_stops_ordered
        route_stops_of_def)
qed

text \<open>
  C1 (segment count). \<open>route_stops_of\<close> is the list of the stops associated with the
  route, \<open>N\<close> its length. When the route geometry \<open>g\<close> is defined and not empty,
  \<open>N \<ge> 2\<close> and every one of the stops projects onto \<open>g\<close>, \<^verbatim>\<open>create_segments_from_route\<close>
  returns \<open>N - 1\<close> segment records. When \<open>N < 2\<close>, or the geometry is undefined or empty,
  it returns the empty list.
\<close>

theorem create_segments_count:
  "(route.geometry route_row = Some g \<and> g \<noteq> [] \<and>
    2 \<le> length (route_stops_of route_row stops_gdf) \<and>
    (\<forall>s\<in>set (route_stops_of route_row stops_gdf).
       project_point_to_line env (stop.geometry s) g \<noteq> None) \<longrightarrow>
    length (create_segments_from_route env has_sequence route_row stops_gdf) =
      length (route_stops_of route_row stops_gdf) - 1) \<and>
   (length (route_stops_of route_row stops_gdf) < 2 \<or> route.geometry route_row = None \<or>
    route.geometry route_row = Some [] \<longrightarrow>
    create_segments_from_route env has_sequence route_row stops_gdf = [])"
proof (intro conjI impI)
  assume a: "route.geometry route_row = Some g \<and> g \<noteq> [] \<and>
    2 \<le> length (route_stops_of route_row stops_gdf) \<and>
    (\<forall>s\<in>set (route_stops_of route_row stops_gdf).
       project_point_to_line env (stop.geometry s) g \<noteq> None)"
  then have "create_segments_from_route env has_sequence route_row stops_gdf =
     segments_between env route_row g (sorted_projections env has_sequence route_row stops_gdf g)"
    by (simp add: create_segments_valid)
  moreover from a have "length (sorted_projections env has_sequence route_row stops_gdf g) =
     length (route_stops_of route_row stops_gdf)"
    by (simp add: length_sorted_projections_all)
  ultimately show "length (create_segments_from_route env has_sequence route_row stops_gdf) =
      length (route_stops_of route_row stops_gdf) - 1"
    by (simp add: length_segments_between)
next
  assume "length (route_stops_of route_row stops_gdf) < 2 \<or> route.geometry route_row = None \<or>
    route.geometry route_row = Some []"
  then show "create_segments_from_route env has_sequence route_row stops_gdf = []"
    by (rule create_segments_skip)
qed

text \<open>Evaluation of the segmentation on explicit inputs.\<close>

lemmas route_eval = create_segments_from_route_def get_route_stops_ordered_def
  project_point_to_line_def extract_line_segment_def calculate_segment_distance_def
  make_segment_def route_stops_of_def sorted_projections_def example_env_def example_route_def
  example_stop_def py_round_def round_half_even_def Let_def

theorem create_segments_count_witness:
  "route.geometry example_route = Some [(0, 0), (12, 0)] \<and>
   2 \<le> length (route_stops_of example_route
       [example_stop ''r1'' ''s3'' ''c'' 1 (12, 0), example_stop ''r1'' ''s1'' ''c'' 2 (0, 0),
        example_stop ''r2'' ''s9'' ''c'' 1 (3, 0), example_stop ''r1'' ''s2'' ''c'' 3 (5, 0)]) \<and>
   length (create_segments_from_route example_env True example_route
       [example_stop ''r1'' ''s3'' ''c'' 1 (12, 0), example_stop ''r1'' ''s1'' ''c'' 2 (0, 0),
        example_stop ''r2'' ''s9'' ''c'' 1 (3, 0), example_stop ''r1'' ''s2'' ''c'' 3 (5, 0)]) = 2 \<and>
   length (route_stops_of example_route
       [example_stop ''r1'' ''s1'' ''c'' 1 (0, 0), example_stop ''r2'' ''s9'' ''c'' 1 (3, 0)]) < 2 \<and>
   create_segments_from_route example_env True example_route
       [example_stop ''r1'' ''s1'' ''c'' 1 (0, 0), example_stop ''r2'' ''s9'' ''c'' 1 (3, 0)] = []"
proof -
  let ?xs = "[example_stop ''r1'' ''s3'' ''c'' 1 (12, 0), example_stop ''r1'' ''s1'' ''c'' 2 (0, 0),
        example_stop ''r2'' ''s9'' ''c'' 1 (3, 0), example_stop ''r1'' ''s2'' ''c'' 3 (5, 0)]"
  let ?ys = "[example_stop ''r1'' ''s1'' ''c'' 1 (0, 0), example_stop ''r2'' ''s9'' ''c'' 1 (3, 0)]"
  have g: "route.geometry example_route = Some [(0, 0), (12, 0)]"
    by (simp add: example_route_def)
  have n: "length (route_stops_of example_route ?xs) = 3"
    by (simp add: route_stops_of_def example_route_def example_stop_def)
  have p: "\<forall>s\<in>set (route_stops_of example_route ?xs).
      project_point_to_line example_env (stop.geometry s) [(0, 0), (12, 0)] \<noteq> None"
    by (simp add: project_point_to_line_def example_env_def)
  have m: "length (route_stops_of example_route ?ys) < 2"
    by (simp add: route_stops_of_def example_route_def example_stop_def)
  from create_segments_count [of example_route "[(0, 0), (12, 0)]" ?xs example_env True] g n p
  have 1: "length (create_segments_from_route example_env True example_route ?xs) = 2"
    by simp
  from create_segments_count [of example_route "[(0, 0), (12, 0)]" ?ys example_env True] m
  have 2: "create_segments_from_route example_env True example_route ?ys = []"
    by blast
  from g n 1 m 2 show ?thesis by simp
qed

lemma create_segments_nonempty:
  assumes "create_segments_from_route env has_sequence route_row stops_gdf \<noteq> []"
    and "route.geometry route_row = Some g"
  shows "create_segments_from_route env has_sequence route_row stops_gdf =
     segments_between env route_row g (sorted_projections env has_sequence route_row stops_gdf g)"
proof -
  have "g \<noteq> []"
    using assms create_segments_skip [of route_row stops_gdf env has_sequence] by auto
  moreover have "\<not> length (route_stops_of route_row stops_gdf) < 2"
    using assms create_segments_skip [of route_row stops_gdf env has_sequence] by auto
  ultimately show ?thesis using assms(2) by (simp add: create_segments_valid)
qed

lemma projected_sound:
  "(s, d) \<in> set (projected env g xs) \<Longrightarrow>
     project_point_to_line env (stop.geometry s) g = Some d \<and> s \<in> set xs"
  by (induction xs) (auto simp: projected_def split: option.splits)

lemma sorted_projections_sound:
  assumes "p \<in> set (sorted_projections env has_sequence route_row stops_gdf g)"
  shows "project_point_to_line env (stop.geometry (stop_data p)) g = Some (projection_distance p)"
proof -
  let ?rs = "get_route_stops_ordered has_sequence (route.route_id route_row) stops_gdf"
  from assms have "p \<in> set (project_stops env g 0 ?rs)"
    by (simp add: sorted_projections_def)
  then have "(stop_data p, projection_distance p) \<in>
      set (map (\<lambda>p. (stop_data p, projection_distance p)) (project_stops env g 0 ?rs))"
    by simp
  then show ?thesis
    unfolding project_stops_view by (simp add: projected_sound)
qed

lemma sorted_sorted_projections:
  "sorted (map projection_distance (sorted_projections env has_sequence route_row stops_gdf g))"
  by (simp add: sorted_projections_def)

text \<open>
  C7 (fallback). \<open>ps\<close> is the sorted projection list of the route and \<open>segs\<close> the
  returned list; segment \<open>i\<close> is the one of the consecutive pair \<open>ps ! i\<close>, \<open>ps ! (i + 1)\<close>.
  When \<^verbatim>\<open>extract_line_segment\<close> returns \<^verbatim>\<open>None\<close> for the positions of the pair, the geometry of
  the segment is the two-point line from the raw location of the first stop to the raw
  location of the second, and its distance is \<^verbatim>\<open>calculate_segment_distance\<close> of that line.
\<close>

theorem fallback_geometry:
  assumes "route.geometry route_row = Some g"
    and "ps = sorted_projections env has_sequence route_row stops_gdf g"
    and "segs = create_segments_from_route env has_sequence route_row stops_gdf"
    and "i < length segs"
    and "extract_line_segment env g (projection_distance (ps ! i))
           (projection_distance (ps ! Suc i)) = None"
  shows "Suc i < length ps \<and>
     s_stopid (segs ! i) = stop.stop_id (stop_data (ps ! i)) \<and>
     e_stopid (segs ! i) = stop.stop_id (stop_data (ps ! Suc i)) \<and>
     segment.geometry (segs ! i) =
       [stop.geometry (stop_data (ps ! i)), stop.geometry (stop_data (ps ! Suc i))] \<and>
     distance (segs ! i) =
       calculate_segment_distance env
         [stop.geometry (stop_data (ps ! i)), stop.geometry (stop_data (ps ! Suc i))]"
proof -
  from assms(3,4) have "create_segments_from_route env has_sequence route_row stops_gdf \<noteq> []"
    by auto
  then have e: "segs = segments_between env route_row g ps"
    unfolding assms(2,3) using assms(1) by (rule create_segments_nonempty)
  with assms(4) have l: "Suc i < length ps"
    by (simp add: length_segments_between)
  then have "segs ! i = make_segment env route_row g (ps ! i) (ps ! Suc i)"
    unfolding e by (rule nth_segments_between)
  with assms(5) l show ?thesis
    by (simp add: make_segment_def Let_def)
qed

text \<open>
  Two stops project to the same position 5: the slice is a single point, of length 0, and
  the segment between them is the straight line between their locations.
\<close>

theorem fallback_geometry_witness:
  "extract_line_segment example_env [(0, 0), (12, 0)] 5 5 = None \<and>
   map (\<lambda>s. (s_stopid s, e_stopid s, segment.geometry s, distance s))
     (create_segments_from_route example_env False example_route
        [example_stop ''r1'' ''s2'' ''c'' 1 (5, 0), example_stop ''r1'' ''s1'' ''c'' 2 (0, 0),
         example_stop ''r1'' ''s4'' ''c'' 3 (5, 1)]) =
     [(''s1'', ''s2'', [(0, 0), (5, 0)], 5), (''s2'', ''s4'', [(5, 0), (5, 1)], 1)]"
proof -
  let ?g = "[(0, 0), (12, 0)] :: linestring"
  let ?xs = "[example_stop ''r1'' ''s2'' ''c'' 1 (5, 0), example_stop ''r1'' ''s1'' ''c'' 2 (0, 0),
         example_stop ''r1'' ''s4'' ''c'' 3 (5, 1)]"
  let ?ps = "sorted_projections example_env False example_route ?xs ?g"
  let ?segs = "create_segments_from_route example_env False example_route ?xs"
  have ps: "?ps =
      [\<lparr>index = 1, stop_data = example_stop ''r1'' ''s1'' ''c'' 2 (0, 0), projection_distance = 0\<rparr>,
       \<lparr>index = 0, stop_data = example_stop ''r1'' ''s2'' ''c'' 1 (5, 0), projection_distance = 5\<rparr>,
       \<lparr>index = 2, stop_data = example_stop ''r1'' ''s4'' ''c'' 3 (5, 1), projection_distance = 5\<rparr>]"
    by (simp add: route_eval)
  have x: "extract_line_segment example_env ?g 5 5 = None"
    by (simp add: route_eval)
  have segs: "map (\<lambda>s. (s_stopid s, e_stopid s)) ?segs = [(''s1'', ''s2''), (''s2'', ''s4'')]"
    by (simp add: route_eval)
  have len: "length ?segs = 2"
    by (simp add: route_eval)
  have g: "route.geometry example_route = Some ?g"
    by (simp add: example_route_def)
  have i: "1 < length ?segs" using len by simp
  have h: "extract_line_segment example_env ?g (projection_distance (?ps ! 1))
           (projection_distance (?ps ! Suc 1)) = None"
    unfolding ps using x by simp
  note f = fallback_geometry [OF g refl refl i h]
  from f have "segment.geometry (?segs ! 1) = [(5, 0), (5, 1)]"
    unfolding ps by (simp add: example_stop_def)
  moreover from f have "distance (?segs ! 1) =
      calculate_segment_distance example_env [(5, 0), (5, 1)]"
    unfolding ps by (simp add: example_stop_def)
  then have "distance (?segs ! 1) = 1"
    by (simp add: route_eval)
  moreover have "map (\<lambda>s. (s_stopid s, e_stopid s, segment.geometry s, distance s)) ?segs =
     [(''s1'', ''s2'', [(0, 0), (5, 0)], 5), (''s2'', ''s4'', [(5, 0), (5, 1)], 1)]"
    by (simp add: route_eval)
  ultimately show ?thesis using x by blast
qed

text \<open>
  C10 (chain). In the list returned by \<^verbatim>\<open>create_segments_from_route\<close>, the end stop (id
  and both names) of every segment is the start stop of the next one; and segment \<open>i\<close>
  starts at entry \<open>i\<close> of the sorted projection list, whose positions ascend and are the
  projections of its stops onto the route geometry.
\<close>

theorem segments_chain:
  assumes "segs = create_segments_from_route env has_sequence route_row stops_gdf"
  shows "(\<forall>i. Suc i < length segs \<longrightarrow>
       e_stopid (segs ! i) = s_stopid (segs ! Suc i) \<and>
       e_stop_cn (segs ! i) = s_stop_cn (segs ! Suc i) \<and>
       e_stop_en (segs ! i) = s_stop_en (segs ! Suc i)) \<and>
    (\<forall>g. route.geometry route_row = Some g \<longrightarrow>
       (let ps = sorted_projections env has_sequence route_row stops_gdf g
        in sorted (map projection_distance ps) \<and>
           (\<forall>i<length segs.
              Suc i < length ps \<and>
              s_stopid (segs ! i) = stop.stop_id (stop_data (ps ! i)) \<and>
              s_stop_cn (segs ! i) = name_cn (stop_data (ps ! i)) \<and>
              s_stop_en (segs ! i) = name_en (stop_data (ps ! i)) \<and>
              project_point_to_line env (stop.geometry (stop_data (ps ! i))) g =
                Some (projection_distance (ps ! i)))))"
proof (rule conjI; intro allI impI)
  fix i
  assume i: "Suc i < length segs"
  then have ne: "create_segments_from_route env has_sequence route_row stops_gdf \<noteq> []"
    using assms by auto
  then obtain g where g: "route.geometry route_row = Some g"
    using create_segments_skip [of route_row stops_gdf env has_sequence]
    by (cases "route.geometry route_row") auto
  let ?ps = "sorted_projections env has_sequence route_row stops_gdf g"
  have e: "segs = segments_between env route_row g ?ps"
    unfolding assms using ne g by (rule create_segments_nonempty)
  with i have l: "Suc (Suc i) < length ?ps"
    by (simp add: length_segments_between)
  then have "segs ! i = make_segment env route_row g (?ps ! i) (?ps ! Suc i)"
    and "segs ! Suc i = make_segment env route_row g (?ps ! Suc i) (?ps ! Suc (Suc i))"
    unfolding e by (simp_all add: nth_segments_between)
  then show "e_stopid (segs ! i) = s_stopid (segs ! Suc i) \<and>
       e_stop_cn (segs ! i) = s_stop_cn (segs ! Suc i) \<and>
       e_stop_en (segs ! i) = s_stop_en (segs ! Suc i)"
    by (simp add: make_segment_def Let_def)
next
  fix g
  assume g: "route.geometry route_row = Some g"
  let ?ps = "sorted_projections env has_sequence route_row stops_gdf g"
  have "Suc i < length ?ps \<and>
          s_stopid (segs ! i) = stop.stop_id (stop_data (?ps ! i)) \<and>
          s_stop_cn (segs ! i) = name_cn (stop_data (?ps ! i)) \<and>
          s_stop_en (segs ! i) = name_en (stop_data (?ps ! i)) \<and>
          project_point_to_line env (stop.geometry (stop_data (?ps ! i))) g =
            Some (projection_distance (?ps ! i))" if i: "i < length segs" for i
  proof -
    from i have ne: "create_segments_from_route env has_sequence route_row stops_gdf \<noteq> []"
      using assms by auto
    have e: "segs = segments_between env route_row g ?ps"
      unfolding assms using ne g by (rule create_segments_nonempty)
    with i have l: "Suc i < length ?ps"
      by (simp add: length_segments_between)
    then have "segs ! i = make_segment env route_row g (?ps ! i) (?ps ! Suc i)"
      unfolding e by (rule nth_segments_between)
    moreover from l have "?ps ! i \<in> set ?ps" by simp
    then have "project_point_to_line env (stop.geometry (stop_data (?ps ! i))) g =
            Some (projection_distance (?ps ! i))"
      by (rule sorted_projections_sound)
    ultimately show ?thesis using l by (simp add: make_segment_def Let_def)
  qed
  then show "let ps = sorted_projections env has_sequence route_row stops_gdf g
        in sorted (map projection_distance ps) \<and>
           (\<forall>i<length segs.
              Suc i < length ps \<and>
              s_stopid (segs ! i) = stop.stop_id (stop_data (ps ! i)) \<and>
              s_stop_cn (segs ! i) = name_cn (stop_data (ps ! i)) \<and>
              s_stop_en (segs ! i) = name_en (stop_data (ps ! i)) \<and>
              project_point_to_line env (stop.geometry (stop_data (ps ! i))) g =
                Some (projection_distance (ps ! i)))"
    unfolding Let_def using sorted_sorted_projections by blast
qed

theorem segments_chain_witness:
  "Suc 0 < length (create_segments_from_route example_env True example_route
       [example_stop ''r1'' ''s3'' ''c'' 1 (12, 0), example_stop ''r1'' ''s1'' ''c'' 2 (0, 0),
        example_stop ''r2'' ''s9'' ''c'' 1 (3, 0), example_stop ''r1'' ''s2'' ''c'' 3 (5, 0)]) \<and>
   e_stopid (create_segments_from_route example_env True example_route
       [example_stop ''r1'' ''s3'' ''c'' 1 (12, 0), example_stop ''r1'' ''s1'' ''c'' 2 (0, 0),
        example_stop ''r2'' ''s9'' ''c'' 1 (3, 0), example_stop ''r1'' ''s2'' ''c'' 3 (5, 0)] ! 0) = ''s2'' \<and>
   s_stopid (create_segments_from_route example_env True example_route
       [example_stop ''r1'' ''s3'' ''c'' 1 (12, 0), example_stop ''r1'' ''s1'' ''c'' 2 (0, 0),
        example_stop ''r2'' ''s9'' ''c'' 1 (3, 0), example_stop ''r1'' ''s2'' ''c'' 3 (5, 0)] ! Suc 0) = ''s2'' \<and>
   route.geometry example_route = Some [(0, 0), (12, 0)] \<and>
   map projection_distance (sorted_projections example_env True example_route
       [example_stop ''r1'' ''s3'' ''c'' 1 (12, 0), example_stop ''r1'' ''s1'' ''c'' 2 (0, 0),
        example_stop ''r2'' ''s9'' ''c'' 1 (3, 0), example_stop ''r1'' ''s2'' ''c'' 3 (5, 0)]
       [(0, 0), (12, 0)]) = [0, 5, 12]"
proof -
  let ?xs = "[example_stop ''r1'' ''s3'' ''c'' 1 (12, 0), example_stop ''r1'' ''s1'' ''c'' 2 (0, 0),
        example_stop ''r2'' ''s9'' ''c'' 1 (3, 0), example_stop ''r1'' ''s2'' ''c'' 3 (5, 0)]"
  let ?segs = "create_segments_from_route example_env True example_route ?xs"
  have len: "length ?segs = 2"
    by (simp add: route_eval)
  then have i: "Suc 0 < length ?segs" by simp
  have s: "s_stopid (?segs ! Suc 0) = ''s2''"
    by (simp add: route_eval)
  have g: "route.geometry example_route = Some [(0, 0), (12, 0)]"
    by (simp add: example_route_def)
  have p: "map projection_distance
      (sorted_projections example_env True example_route ?xs [(0, 0), (12, 0)]) = [0, 5, 12]"
    by (simp add: route_eval)
  from segments_chain [OF refl, of example_env True example_route ?xs] i
  have "e_stopid (?segs ! 0) = s_stopid (?segs ! Suc 0)"
    by blast
  with s i g p show ?thesis by simp
qed

lemma make_segment_view:
  "projection_view a = projection_view a' \<Longrightarrow> projection_view b = projection_view b' \<Longrightarrow>
     make_segment env route_row g a b = make_segment env route_row g a' b'"
proof -
  assume a: "projection_view a = projection_view a'" and b: "projection_view b = projection_view b'"
  have f: "name_cn s = name_cn s' \<and> name_en s = name_en s' \<and> stop.stop_id s = stop.stop_id s' \<and>
      stop.geometry s = stop.geometry s'"
    if "forget_sequence s = forget_sequence s'" for s s'
  proof -
    have "name_cn (forget_sequence s) = name_cn s" "name_en (forget_sequence s) = name_en s"
      "stop.stop_id (forget_sequence s) = stop.stop_id s"
      "stop.geometry (forget_sequence s) = stop.geometry s" for s
      by (simp_all add: forget_sequence_def)
    with that show ?thesis by metis
  qed
  from a have "forget_sequence (stop_data a) = forget_sequence (stop_data a')"
    and da: "projection_distance a = projection_distance a'"
    by (simp_all add: projection_view_def)
  note fa = f [OF this(1)]
  from b have "forget_sequence (stop_data b) = forget_sequence (stop_data b')"
    and db: "projection_distance b = projection_distance b'"
    by (simp_all add: projection_view_def)
  note fb = f [OF this(1)]
  show ?thesis
    by (simp add: make_segment_def Let_def fa fb da db cong: option.case_cong)
qed

lemma segments_between_view:
  "map projection_view ps = map projection_view qs \<Longrightarrow>
     segments_between env route_row g ps = segments_between env route_row g qs"
proof (induction env route_row g ps arbitrary: qs rule: segments_between.induct)
  case (1 env route_row g a b rest)
  then obtain a' b' rest' where qs: "qs = a' # b' # rest'"
    and v: "projection_view a = projection_view a'" "projection_view b = projection_view b'"
    and r: "map projection_view (b # rest) = map projection_view (b' # rest')"
    by (auto simp: Cons_eq_map_conv)
  from "1.IH" [OF r] make_segment_view [OF v] show ?case
    by (simp add: qs)
next
  case (2 env route_row g a)
  then obtain a' where "qs = [a']" by (auto simp: Cons_eq_map_conv)
  then show ?case by simp
next
  case (3 env route_row g)
  then show ?case by simp
qed

lemma map_insort_key:
  "map h (insort_key (\<lambda>y. f' (h y)) x xs) = insort_key f' (h x) (map h xs)"
  by (induction xs) simp_all

lemma map_sort_key: "map h (sort_key (\<lambda>y. f' (h y)) xs) = sort_key f' (map h xs)"
  by (induction xs) (simp_all add: map_insort_key)

lemma projected_forget:
  "map (\<lambda>(s, d). (forget_sequence s, d)) (projected env g xs) =
     projected env g (map forget_sequence xs)"
  by (induction xs)
    (auto simp: projected_def forget_sequence_def split: option.splits)

lemma mset_map_filter:
  "mset (List.map_filter f zs) = image_mset (the \<circ> f) (filter_mset (\<lambda>x. f x \<noteq> None) (mset zs))"
  by (simp add: List.map_filter_def)

lemma mset_projected:
  "mset xs = mset ys \<Longrightarrow> mset (projected env g xs) = mset (projected env g ys)"
  unfolding projected_def mset_map_filter by (rule arg_cong [where f = "\<lambda>M. image_mset _ (filter_mset _ M)"])

lemma view_sorted_projections:
  "map projection_view (sorted_projections env has_sequence route_row stops_gdf g) =
     sort_key snd (projected env g
       (map forget_sequence (get_route_stops_ordered has_sequence (route.route_id route_row) stops_gdf)))"
proof -
  let ?rs = "get_route_stops_ordered has_sequence (route.route_id route_row) stops_gdf"
  have "map projection_view (sorted_projections env has_sequence route_row stops_gdf g) =
      sort_key snd (map projection_view (project_stops env g 0 ?rs))"
  proof -
    have pd: "sort_key projection_distance xs = sort_key (\<lambda>p. snd (projection_view p)) xs"
      for xs :: "stop_projection list"
      by (simp add: projection_view_def)
    show ?thesis
      unfolding sorted_projections_def pd by (rule map_sort_key)
  qed
  also have "map projection_view (project_stops env g 0 ?rs) =
      map (\<lambda>(s, d). (forget_sequence s, d))
        (map (\<lambda>p. (stop_data p, projection_distance p)) (project_stops env g 0 ?rs))"
    by (simp add: projection_view_def comp_def)
  also have "\<dots> = projected env g (map forget_sequence ?rs)"
    unfolding project_stops_view by (rule projected_forget)
  finally show ?thesis .
qed

lemma mset_forget_route_stops:
  assumes "mset (map forget_sequence stops1) = mset (map forget_sequence stops2)"
  shows "mset (map forget_sequence (get_route_stops_ordered b1 rid stops1)) =
     mset (map forget_sequence (get_route_stops_ordered b2 rid stops2))"
proof -
  have "mset (map forget_sequence (get_route_stops_ordered b rid xs)) =
      filter_mset (\<lambda>s. stop.route_id s = rid) (mset (map forget_sequence xs))" for b xs
  proof -
    have "mset (map forget_sequence (get_route_stops_ordered b rid xs)) =
        image_mset forget_sequence (mset (get_route_stops_ordered b rid xs))"
      by simp
    also have "\<dots> = image_mset forget_sequence (filter_mset (\<lambda>s. stop.route_id s = rid) (mset xs))"
      by (simp add: mset_get_route_stops_ordered)
    also have "\<dots> = filter_mset (\<lambda>s. stop.route_id s = rid) (image_mset forget_sequence (mset xs))"
      by (simp add: filter_mset_image_mset forget_sequence_def comp_def)
    finally show ?thesis by simp
  qed
  with assms show ?thesis by simp
qed

lemma distinct_positions_ordered:
  assumes "distinct (map snd (projected env g (route_stops_of route_row stops_gdf)))"
  shows "distinct (map snd (projected env g
     (map forget_sequence (get_route_stops_ordered b (route.route_id route_row) stops_gdf))))"
proof -
  let ?rs = "get_route_stops_ordered b (route.route_id route_row) stops_gdf"
  have "mset ?rs = mset (route_stops_of route_row stops_gdf)"
    by (simp add: mset_get_route_stops_ordered route_stops_of_def)
  then have "mset (projected env g ?rs) = mset (projected env g (route_stops_of route_row stops_gdf))"
    by (rule mset_projected)
  then have "mset (map snd (projected env g ?rs)) =
      mset (map snd (projected env g (route_stops_of route_row stops_gdf)))"
    by (metis mset_map)
  then have "distinct (map snd (projected env g ?rs))"
    using assms by (metis mset_eq_imp_distinct_iff)
  moreover have "map snd (projected env g (map forget_sequence ?rs)) =
      map snd (projected env g ?rs)"
    unfolding projected_forget [symmetric] by (simp add: comp_def case_prod_unfold)
  ultimately show ?thesis by simp
qed

text \<open>
  C5 (the order comes from the projections alone). Take two stop frames that hold the same
  rows up to the order of the rows and their \<^verbatim>\<open>sequence\<close> values, each with or without a
  \<^verbatim>\<open>sequence\<close> column. When the stops of the route that project have pairwise distinct
  positions, \<^verbatim>\<open>create_segments_from_route\<close> returns the same segment list for both.
\<close>

theorem segments_independent_of_sequence_and_order:
  assumes "mset (map forget_sequence stops1) = mset (map forget_sequence stops2)"
    and "\<And>g. route.geometry route_row = Some g \<Longrightarrow>
      distinct (map snd (projected env g (route_stops_of route_row stops1)))"
  shows "create_segments_from_route env seq1 route_row stops1 =
     create_segments_from_route env seq2 route_row stops2"
proof -
  let ?rid = "route.route_id route_row"
  let ?rs1 = "get_route_stops_ordered seq1 ?rid stops1"
  let ?rs2 = "get_route_stops_ordered seq2 ?rid stops2"
  have m: "mset (map forget_sequence ?rs1) = mset (map forget_sequence ?rs2)"
    using assms(1) by (rule mset_forget_route_stops)
  then have "length (map forget_sequence ?rs1) = length (map forget_sequence ?rs2)"
    by (rule mset_eq_length)
  then have len: "length (route_stops_of route_row stops1) = length (route_stops_of route_row stops2)"
    by (simp add: length_get_route_stops_ordered route_stops_of_def)
  show ?thesis
  proof (cases "length (route_stops_of route_row stops1) < 2 \<or> route.geometry route_row = None \<or>
      route.geometry route_row = Some []")
    case True
    then have "create_segments_from_route env seq1 route_row stops1 = []"
      by (rule create_segments_skip)
    moreover from True have "length (route_stops_of route_row stops2) < 2 \<or>
        route.geometry route_row = None \<or> route.geometry route_row = Some []"
      by (simp add: len)
    then have "create_segments_from_route env seq2 route_row stops2 = []"
      by (rule create_segments_skip)
    ultimately show ?thesis by simp
  next
    case False
    then obtain g where g: "route.geometry route_row = Some g" "g \<noteq> []"
      and n: "2 \<le> length (route_stops_of route_row stops1)"
      by (cases "route.geometry route_row") auto
    let ?A = "projected env g (map forget_sequence ?rs1)"
    let ?B = "projected env g (map forget_sequence ?rs2)"
    have "mset ?A = mset ?B" using m by (rule mset_projected)
    then have 1: "mset ?A = mset (sort_key snd ?B)" by simp
    have "distinct (map snd ?A)"
      using assms(2) [OF g(1)] by (rule distinct_positions_ordered)
    then have 2: "inj_on snd (set ?A)" by (simp add: distinct_map)
    have 3: "sorted (map snd (sort_key snd ?B))" by simp
    have "sort_key snd ?A = sort_key snd ?B"
      using 1 2 3 by (rule sort_key_inj_key_eq)
    then have "map projection_view (sorted_projections env seq1 route_row stops1 g) =
        map projection_view (sorted_projections env seq2 route_row stops2 g)"
      by (simp add: view_sorted_projections)
    then have "segments_between env route_row g (sorted_projections env seq1 route_row stops1 g) =
        segments_between env route_row g (sorted_projections env seq2 route_row stops2 g)"
      by (rule segments_between_view)
    moreover from n have "2 \<le> length (route_stops_of route_row stops2)" by (simp add: len)
    ultimately show ?thesis
      using g n by (simp add: create_segments_valid)
  qed
qed

text \<open>
  The same four rows in another order and with other sequence values, the first frame
  sorted by sequence and the second without the column.
\<close>

theorem segments_independent_of_sequence_and_order_witness:
  "mset (map forget_sequence
       [example_stop ''r1'' ''s3'' ''c'' 1 (12, 0), example_stop ''r1'' ''s1'' ''c'' 2 (0, 0),
        example_stop ''r2'' ''s9'' ''c'' 1 (3, 0), example_stop ''r1'' ''s2'' ''c'' 3 (5, 0)]) =
   mset (map forget_sequence
       [example_stop ''r1'' ''s2'' ''c'' 7 (5, 0), example_stop ''r2'' ''s9'' ''c'' 0 (3, 0),
        example_stop ''r1'' ''s3'' ''c'' 7 (12, 0), example_stop ''r1'' ''s1'' ''c'' 9 (0, 0)]) \<and>
   map snd (projected example_env [(0, 0), (12, 0)] (route_stops_of example_route
       [example_stop ''r1'' ''s3'' ''c'' 1 (12, 0), example_stop ''r1'' ''s1'' ''c'' 2 (0, 0),
        example_stop ''r2'' ''s9'' ''c'' 1 (3, 0), example_stop ''r1'' ''s2'' ''c'' 3 (5, 0)])) =
     [12, 0, 5] \<and>
   create_segments_from_route example_env True example_route
       [example_stop ''r1'' ''s3'' ''c'' 1 (12, 0), example_stop ''r1'' ''s1'' ''c'' 2 (0, 0),
        example_stop ''r2'' ''s9'' ''c'' 1 (3, 0), example_stop ''r1'' ''s2'' ''c'' 3 (5, 0)] =
   create_segments_from_route example_env False example_route
       [example_stop ''r1'' ''s2'' ''c'' 7 (5, 0), example_stop ''r2'' ''s9'' ''c'' 0 (3, 0),
        example_stop ''r1'' ''s3'' ''c'' 7 (12, 0), example_stop ''r1'' ''s1'' ''c'' 9 (0, 0)] \<and>
   map (\<lambda>s. (s_stopid s, e_stopid s))
     (create_segments_from_route example_env False example_route
       [example_stop ''r1'' ''s2'' ''c'' 7 (5, 0), example_stop ''r2'' ''s9'' ''c'' 0 (3, 0),
        example_stop ''r1'' ''s3'' ''c'' 7 (12, 0), example_stop ''r1'' ''s1'' ''c'' 9 (0, 0)]) =
     [(''s1'', ''s2''), (''s2'', ''s3'')]"
proof -
  let ?xs = "[example_stop ''r1'' ''s3'' ''c'' 1 (12, 0), example_stop ''r1'' ''s1'' ''c'' 2 (0, 0),
        example_stop ''r2'' ''s9'' ''c'' 1 (3, 0), example_stop ''r1'' ''s2'' ''c'' 3 (5, 0)]"
  let ?ys = "[example_stop ''r1'' ''s2'' ''c'' 7 (5, 0), example_stop ''r2'' ''s9'' ''c'' 0 (3, 0),
        example_stop ''r1'' ''s3'' ''c'' 7 (12, 0), example_stop ''r1'' ''s1'' ''c'' 9 (0, 0)]"
  have m: "mset (map forget_sequence ?xs) = mset (map forget_sequence ?ys)"
    by (simp add: forget_sequence_def example_stop_def)
  have p: "map snd (projected example_env [(0, 0), (12, 0)] (route_stops_of example_route ?xs)) =
      [12, 0, 5]"
    by (simp add: projected_def route_eval)
  have d: "distinct (map snd (projected example_env g (route_stops_of example_route ?xs)))"
    if "route.geometry example_route = Some g" for g
  proof -
    from that have "g = [(0, 0), (12, 0)]" by (simp add: example_route_def)
    then show ?thesis by (simp only: p) simp
  qed
  note t = segments_independent_of_sequence_and_order [OF m d, where ?seq1.0 = True and ?seq2.0 = False]
  have "map (\<lambda>s. (s_stopid s, e_stopid s))
     (create_segments_from_route example_env False example_route ?ys) =
     [(''s1'', ''s2''), (''s2'', ''s3'')]"
    by (simp add: route_eval)
  with m p t show ?thesis by blast
qed

end
